theory Spec2Isabelle
  imports Complex_Main "HOL-Library.AList"
begin

section \<open>Python values and exceptions\<close>

text \<open>
  The ledger of \<^verbatim>\<open>bot.py\<close> is a Python dictionary that is filled from a JSON file
  without any check of the types found there, so its sections can hold any JSON value.
  The values are modelled as they come out of \<^verbatim>\<open>json.loads\<close>: a dictionary is an
  association list with string keys (the insertion order of Python is the order of the list).
  JSON numbers with a fraction are left out: the program writes none.
\<close>

datatype pyval =
    PNone
  | PBool bool
  | PInt int
  | PStr string
  | PList "pyval list"
  | PDict "(string \<times> pyval) list"

type_synonym pydict = "(string \<times> pyval) list"

datatype exn = TypeError | AttributeError | KeyError | DiscordError

section \<open>Primitive operations of Python\<close>

text \<open>Truth value of an object, as \<^verbatim>\<open>if x\<close> and \<^verbatim>\<open>not x\<close> test it.\<close>

fun truthy :: "pyval \<Rightarrow> bool" where
  "truthy PNone = False"
| "truthy (PBool b) = b"
| "truthy (PInt n) = (n \<noteq> 0)"
| "truthy (PStr s) = (s \<noteq> [])"
| "truthy (PList xs) = (xs \<noteq> [])"
| "truthy (PDict d) = (d \<noteq> [])"

fun startswith :: "string \<Rightarrow> string \<Rightarrow> bool" where
  "startswith s [] = True"
| "startswith [] (c # p) = False"
| "startswith (d # s) (c # p) = (d = c \<and> startswith s p)"

text \<open>\<^verbatim>\<open>needle in hay\<close> on two strings: \<open>needle\<close> occurs in \<open>hay\<close> as a substring.\<close>

fun str_contains :: "string \<Rightarrow> string \<Rightarrow> bool" where
  "str_contains needle [] = (needle = [])"
| "str_contains needle (c # s) = (startswith (c # s) needle \<or> str_contains needle s)"

text \<open>
  \<^verbatim>\<open>k in x\<close> for a string \<open>k\<close>: a key test on a dictionary, an element test on a list,
  a substring test on a string, and \<^verbatim>\<open>TypeError\<close> on \<^verbatim>\<open>None\<close>, booleans and integers.
\<close>

fun py_contains :: "string \<Rightarrow> pyval \<Rightarrow> exn + bool" where
  "py_contains k (PDict d) = Inr (map_of d k \<noteq> None)"
| "py_contains k (PList xs) = Inr (PStr k \<in> set xs)"
| "py_contains k (PStr s) = Inr (str_contains k s)"
| "py_contains k PNone = Inl TypeError"
| "py_contains k (PBool b) = Inl TypeError"
| "py_contains k (PInt n) = Inl TypeError"

text \<open>\<^verbatim>\<open>x.get(k, dflt)\<close>: only dictionaries have the method.\<close>

fun py_get :: "pyval \<Rightarrow> string \<Rightarrow> pyval \<Rightarrow> exn + pyval" where
  "py_get (PDict d) k dflt = Inr (case map_of d k of None \<Rightarrow> dflt | Some v \<Rightarrow> v)"
| "py_get PNone k dflt = Inl AttributeError"
| "py_get (PBool b) k dflt = Inl AttributeError"
| "py_get (PInt n) k dflt = Inl AttributeError"
| "py_get (PStr s) k dflt = Inl AttributeError"
| "py_get (PList xs) k dflt = Inl AttributeError"

text \<open>\<^verbatim>\<open>x[k]\<close>, \<^verbatim>\<open>x[k] = v\<close> and \<^verbatim>\<open>del x[k]\<close> with a string \<open>k\<close>.\<close>

fun py_getitem :: "pyval \<Rightarrow> string \<Rightarrow> exn + pyval" where
  "py_getitem (PDict d) k = (case map_of d k of None \<Rightarrow> Inl KeyError | Some v \<Rightarrow> Inr v)"
| "py_getitem PNone k = Inl TypeError"
| "py_getitem (PBool b) k = Inl TypeError"
| "py_getitem (PInt n) k = Inl TypeError"
| "py_getitem (PStr s) k = Inl TypeError"
| "py_getitem (PList xs) k = Inl TypeError"

fun py_setitem :: "pyval \<Rightarrow> string \<Rightarrow> pyval \<Rightarrow> exn + pyval" where
  "py_setitem (PDict d) k v = Inr (PDict (AList.update k v d))"
| "py_setitem PNone k v = Inl TypeError"
| "py_setitem (PBool b) k v = Inl TypeError"
| "py_setitem (PInt n) k v = Inl TypeError"
| "py_setitem (PStr s) k v = Inl TypeError"
| "py_setitem (PList xs) k v = Inl TypeError"

fun py_delitem :: "pyval \<Rightarrow> string \<Rightarrow> exn + pyval" where
  "py_delitem (PDict d) k =
     (case map_of d k of None \<Rightarrow> Inl KeyError | Some v \<Rightarrow> Inr (PDict (AList.delete k d)))"
| "py_delitem PNone k = Inl TypeError"
| "py_delitem (PBool b) k = Inl TypeError"
| "py_delitem (PInt n) k = Inl TypeError"
| "py_delitem (PStr s) k = Inl TypeError"
| "py_delitem (PList xs) k = Inl TypeError"

text \<open>\<^verbatim>\<open>x + 1\<close>: a boolean counts as 0 or 1, everything but a number raises.\<close>

fun py_add1 :: "pyval \<Rightarrow> exn + pyval" where
  "py_add1 (PInt n) = Inr (PInt (n + 1))"
| "py_add1 (PBool b) = Inr (PInt ((if b then 1 else 0) + 1))"
| "py_add1 PNone = Inl TypeError"
| "py_add1 (PStr s) = Inl TypeError"
| "py_add1 (PList xs) = Inl TypeError"
| "py_add1 (PDict d) = Inl TypeError"

definition pbind :: "exn + 'a \<Rightarrow> ('a \<Rightarrow> exn + 'b) \<Rightarrow> exn + 'b" where
  "pbind m f = (case m of Inl e \<Rightarrow> Inl e | Inr v \<Rightarrow> f v)"

subsection \<open>Decimal text of an integer\<close>

definition digit :: "nat \<Rightarrow> char" where
  "digit n = ''0123456789'' ! (n mod 10)"

function str_nat :: "nat \<Rightarrow> string" where
  "str_nat n = (if n < 10 then [digit n] else str_nat (n div 10) @ [digit (n mod 10)])"
  by pat_completeness auto
termination
  by (relation "measure (\<lambda>n. n)") auto

declare str_nat.simps [simp del]

text \<open>\<^verbatim>\<open>str(i)\<close> for an integer, and for an argument that may be \<^verbatim>\<open>None\<close>.\<close>

definition str_int :: "int \<Rightarrow> string" where
  "str_int i = (if i < 0 then CHR ''-'' # str_nat (nat (- i)) else str_nat (nat i))"

definition str_opt :: "int option \<Rightarrow> string" where
  "str_opt x = (case x of None \<Rightarrow> ''None'' | Some i \<Rightarrow> str_int i)"

definition opt_truthy :: "int option \<Rightarrow> bool" where
  "opt_truthy x = (case x of None \<Rightarrow> False | Some i \<Rightarrow> i \<noteq> 0)"

section \<open>The escalation policy\<close>

datatype timedelta = Timedelta (total_seconds: int)

definition minutes :: "int \<Rightarrow> timedelta" where
  "minutes m = Timedelta (60 * m)"

definition hours :: "int \<Rightarrow> timedelta" where
  "hours h = Timedelta (3600 * h)"

definition NSFW_THRESHOLD :: real where
  "NSFW_THRESHOLD = 0.5"

definition TIMEOUT_LEVELS :: "(int \<times> timedelta) list" where
  "TIMEOUT_LEVELS = [(1, minutes 10), (2, hours 1), (3, hours 3), (4, hours 6)]"

text \<open>
  \<^verbatim>\<open>cls.TIMEOUT_LEVELS.get(min(warning_count, 4), cls.TIMEOUT_LEVELS[4])\<close>: the default
  \<^verbatim>\<open>TIMEOUT_LEVELS[4]\<close> is evaluated first and would raise \<^verbatim>\<open>KeyError\<close> if the table had no
  entry 4.
\<close>

definition calculate_timeout :: "int \<Rightarrow> exn + timedelta" where
  "calculate_timeout warning_count =
     (case map_of TIMEOUT_LEVELS 4 of
        None \<Rightarrow> Inl KeyError
      | Some dflt \<Rightarrow>
          Inr (case map_of TIMEOUT_LEVELS (min warning_count 4) of
                 None \<Rightarrow> dflt
               | Some d \<Rightarrow> d))"

section \<open>The violation ledger (class ModerationData)\<close>

text \<open>
  \<^verbatim>\<open>self.data\<close> is a dictionary with the sections \<^verbatim>\<open>enabled_servers\<close>,
  \<^verbatim>\<open>user_warnings\<close> and \<^verbatim>\<open>moderation_log\<close>. Every method takes the dictionary and
  returns what the call returns (or the exception it raises) together with the dictionary
  after the call: an exception leaves the object as it was mutated up to that point.
\<close>

definition default_data :: pydict where
  "default_data =
     [(''enabled_servers'', PDict []), (''user_warnings'', PDict []),
      (''moderation_log'', PList [])]"

text \<open>The guard \<^verbatim>\<open>if k not in self.data: self.data[k] = {}\<close> that opens the methods.\<close>

definition ensure_section :: "string \<Rightarrow> pydict \<Rightarrow> pydict" where
  "ensure_section k d = (if map_of d k = None then AList.update k (PDict []) d else d)"

definition is_enabled :: "int \<Rightarrow> pydict \<Rightarrow> (exn + pyval) \<times> pydict" where
  "is_enabled guild_id d =
     (let d1 = ensure_section ''enabled_servers'' d in
      (pbind (py_getitem (PDict d1) ''enabled_servers'') (\<lambda>es.
         py_get es (str_int guild_id) (PBool False)), d1))"

definition set_enabled :: "int \<Rightarrow> bool \<Rightarrow> pydict \<Rightarrow> (exn + pyval) \<times> pydict" where
  "set_enabled guild_id enabled d =
     (let d1 = ensure_section ''enabled_servers'' d in
      case pbind (py_getitem (PDict d1) ''enabled_servers'') (\<lambda>es.
             py_setitem es (str_int guild_id) (PBool enabled)) of
        Inl e \<Rightarrow> (Inl e, d1)
      | Inr es1 \<Rightarrow> (Inr PNone, AList.update ''enabled_servers'' es1 d1))"

definition get_user_warnings :: "int \<Rightarrow> int \<Rightarrow> pydict \<Rightarrow> (exn + pyval) \<times> pydict" where
  "get_user_warnings guild_id user_id d =
     (let d1 = ensure_section ''user_warnings'' d in
      (pbind (py_getitem (PDict d1) ''user_warnings'') (\<lambda>uw.
       pbind (py_get uw (str_int guild_id) (PDict [])) (\<lambda>server_warnings.
         py_get server_warnings (str_int user_id) (PInt 0))), d1))"

text \<open>
  \<^verbatim>\<open>increment_warning\<close> has no \<^verbatim>\<open>return\<close>: the call yields \<^verbatim>\<open>None\<close>. In the last
  assignment Python evaluates the right-hand side first, then the target
  \<^verbatim>\<open>self.data['user_warnings'][guild_id_str]\<close>, then stores.
\<close>

definition increment_warning :: "int \<Rightarrow> int \<Rightarrow> pydict \<Rightarrow> (exn + pyval) \<times> pydict" where
  "increment_warning guild_id user_id d =
     (let d1 = ensure_section ''user_warnings'' d;
          guild_id_str = str_int guild_id;
          user_id_str = str_int user_id
      in
      case pbind (py_getitem (PDict d1) ''user_warnings'') (\<lambda>uw.
           pbind (py_contains guild_id_str uw) (\<lambda>present.
             if \<not> present then py_setitem uw guild_id_str (PDict []) else Inr uw)) of
        Inl e \<Rightarrow> (Inl e, d1)
      | Inr uw1 \<Rightarrow>
          (let d2 = AList.update ''user_warnings'' uw1 d1 in
           case get_user_warnings guild_id user_id d2 of
             (Inl e, d3) \<Rightarrow> (Inl e, d3)
           | (Inr c, d3) \<Rightarrow>
               (case pbind (py_add1 c) (\<lambda>c1.
                     pbind (py_getitem (PDict d3) ''user_warnings'') (\<lambda>uw2.
                     pbind (py_getitem uw2 guild_id_str) (\<lambda>sw.
                     pbind (py_setitem sw user_id_str c1) (\<lambda>sw1.
                       py_setitem uw2 guild_id_str sw1)))) of
                  Inl e \<Rightarrow> (Inl e, d3)
                | Inr uw3 \<Rightarrow> (Inr PNone, AList.update ''user_warnings'' uw3 d3))))"

text \<open>
  \<^verbatim>\<open>reset_warnings(guild_id=None, user_id=None)\<close>. The branches are chosen by the truth
  value of the arguments (\<^verbatim>\<open>if guild_id and user_id\<close>, \<^verbatim>\<open>elif guild_id\<close>), so an
  identifier 0 counts as an argument that was not given.
\<close>

definition reset_warnings :: "int option \<Rightarrow> int option \<Rightarrow> pydict \<Rightarrow> (exn + pyval) \<times> pydict" where
  "reset_warnings guild_id user_id d =
     (case map_of d ''user_warnings'' of
        None \<Rightarrow> (Inr PNone, AList.update ''user_warnings'' (PDict []) d)
      | Some uw \<Rightarrow>
          if opt_truthy guild_id \<and> opt_truthy user_id then
            (let guild_id_str = str_opt guild_id; user_id_str = str_opt user_id in
             case pbind (py_contains guild_id_str uw) (\<lambda>g_in.
                  if \<not> g_in then Inr uw
                  else pbind (py_getitem uw guild_id_str) (\<lambda>sw.
                       pbind (py_contains user_id_str sw) (\<lambda>u_in.
                       if \<not> u_in then Inr uw
                       else pbind (py_delitem sw user_id_str) (\<lambda>sw1.
                              py_setitem uw guild_id_str sw1)))) of
               Inl e \<Rightarrow> (Inl e, d)
             | Inr uw1 \<Rightarrow> (Inr PNone, AList.update ''user_warnings'' uw1 d))
          else if opt_truthy guild_id then
            (let guild_id_str = str_opt guild_id in
             case pbind (py_contains guild_id_str uw) (\<lambda>g_in.
                  if \<not> g_in then Inr uw else py_setitem uw guild_id_str (PDict [])) of
               Inl e \<Rightarrow> (Inl e, d)
             | Inr uw1 \<Rightarrow> (Inr PNone, AList.update ''user_warnings'' uw1 d))
          else (Inr PNone, AList.update ''user_warnings'' (PDict []) d))"

text \<open>
  A ledger whose warning section has the shape the program writes: a dictionary from
  communities to dictionaries from members to integers.
\<close>

fun is_count :: "pyval \<Rightarrow> bool" where
  "is_count (PInt n) = True"
| "is_count PNone = False"
| "is_count (PBool b) = False"
| "is_count (PStr s) = False"
| "is_count (PList xs) = False"
| "is_count (PDict d) = False"

fun is_count_map :: "pyval \<Rightarrow> bool" where
  "is_count_map (PDict m) = list_all (\<lambda>kv. is_count (snd kv)) m"
| "is_count_map PNone = False"
| "is_count_map (PBool b) = False"
| "is_count_map (PInt n) = False"
| "is_count_map (PStr s) = False"
| "is_count_map (PList xs) = False"

fun is_warnings :: "pyval \<Rightarrow> bool" where
  "is_warnings (PDict m) = list_all (\<lambda>kv. is_count_map (snd kv)) m"
| "is_warnings PNone = False"
| "is_warnings (PBool b) = False"
| "is_warnings (PInt n) = False"
| "is_warnings (PStr s) = False"
| "is_warnings (PList xs) = False"

definition wt_data :: "pydict \<Rightarrow> bool" where
  "wt_data d = (case map_of d ''user_warnings'' of None \<Rightarrow> True | Some uw \<Rightarrow> is_warnings uw)"

text \<open>
  \<^verbatim>\<open>format_duration\<close>: hours and minutes of a duration, minutes alone under one hour.
\<close>

definition format_duration :: "timedelta \<Rightarrow> string" where
  "format_duration duration =
     (let total = total_seconds duration;
          hrs = total div 3600;
          remainder = total mod 3600;
          mins = remainder div 60
      in if hrs > 0 then str_int hrs @ ''h '' @ str_int mins @ ''m'' else str_int mins @ ''m'')"

section \<open>The bot, its file and the outside world\<close>

text \<open>
  The backing file is represented by what \<^verbatim>\<open>load_data\<close> can make of it: it does not
  exist, or opening, reading or \<^verbatim>\<open>json.loads\<close> raises, or \<^verbatim>\<open>json.loads\<close> gives a value.
\<close>

datatype file_state = NoFile | Unparseable | Parsed pyval

text \<open>
  How a write ends: it succeeds, \<^verbatim>\<open>open(..., 'w')\<close> raises and the file is untouched, or
  the write raises after \<^verbatim>\<open>open\<close> has truncated the file.
\<close>

datatype write_outcome = WriteOk | OpenFails | WriteFails

text \<open>How a call to the chat platform ends: \<^verbatim>\<open>discord.Forbidden\<close> or any other exception.\<close>

datatype ext_outcome = Done | Forbidden | Failed

record embed =
  embed_user :: int
  embed_score :: real
  embed_warning_count :: int
  embed_timeout :: string
  embed_removed :: bool
  embed_timed_out :: bool
  embed_max_escalation :: bool

text \<open>
  What the bot did to the outside: log lines, calls of the classifier, and the external
  actions that took effect, in the order they happened.
\<close>

datatype event =
    LogInfo string
  | LogWarning string
  | LogError string
  | AnalyzeImage string
  | MessageDeleted
  | MemberTimedOut int timedelta
  | EmbedSent embed
  | FileWritten pydict

record bot =
  data :: pydict
  data_file :: file_state
  events :: "event list"

record attachment =
  content_type :: "string option"
  url :: string

record message =
  author_bot :: bool
  author_id :: int
  guild :: "int option"
  attachments :: "attachment list"

text \<open>
  The collaborators that are not in the repository are parameters: what the body of
  \<^verbatim>\<open>analyze_image\<close> computes for a locator (\<open>None\<close> when it raises), how the calls to the
  chat platform and to the file system end, and what \<^verbatim>\<open>bot.process_commands\<close> does to
  the bot.
\<close>

record env =
  analysis :: "string \<Rightarrow> real option"
  delete_outcome :: ext_outcome
  timeout_outcome :: ext_outcome
  send_ok :: bool
  disk :: write_outcome
  process_commands :: "message \<Rightarrow> bot \<Rightarrow> bot"

definition log_event :: "event \<Rightarrow> bot \<Rightarrow> bot" where
  "log_event e st = st\<lparr>events := events st @ [e]\<rparr>"

definition init :: "file_state \<Rightarrow> bot" where
  "init f = \<lparr>data = default_data, data_file = f, events = []\<rparr>"

section \<open>The durable store (load\_data, save\_data)\<close>

text \<open>
  \<^verbatim>\<open>save_data\<close> catches every exception, logs it, and has no \<^verbatim>\<open>return\<close>: whatever
  happens, the call yields \<^verbatim>\<open>None\<close>.
\<close>

definition save_data :: "env \<Rightarrow> bot \<Rightarrow> (exn + pyval) \<times> bot" where
  "save_data env st =
     (case disk env of
        WriteOk \<Rightarrow>
          (Inr PNone, log_event (FileWritten (data st)) (st\<lparr>data_file := Parsed (PDict (data st))\<rparr>))
      | OpenFails \<Rightarrow>
          (Inr PNone, log_event (LogError ''Error saving data'') st)
      | WriteFails \<Rightarrow>
          (Inr PNone, log_event (LogError ''Error saving data'') (st\<lparr>data_file := Unparseable\<rparr>)))"

text \<open>The \<^verbatim>\<open>except\<close> branch of \<^verbatim>\<open>load_data\<close>.\<close>

definition load_failed :: "env \<Rightarrow> bot \<Rightarrow> (exn + pyval) \<times> bot" where
  "load_failed env st =
     (let st1 = log_event (LogError ''Error loading data'') st;
          st2 = st1\<lparr>data := default_data\<rparr>;
          (r, st3) = save_data env st2
      in (Inr PNone, st3))"

definition load_data :: "env \<Rightarrow> bot \<Rightarrow> (exn + pyval) \<times> bot" where
  "load_data env st =
     (case data_file st of
        NoFile \<Rightarrow>
          (let (r, st1) = save_data env st
           in (Inr PNone, log_event (LogInfo ''Created new moderation data file'') st1))
      | Unparseable \<Rightarrow> load_failed env st
      | Parsed loaded_data \<Rightarrow>
          (case pbind (py_get loaded_data ''enabled_servers'' (PDict [])) (\<lambda>es.
                pbind (py_get loaded_data ''user_warnings'' (PDict [])) (\<lambda>uw.
                pbind (py_get loaded_data ''moderation_log'' (PList [])) (\<lambda>ml.
                  Inr [(''enabled_servers'', es), (''user_warnings'', uw),
                       (''moderation_log'', ml)]))) of
             Inl e \<Rightarrow> load_failed env st
           | Inr d \<Rightarrow>
               (Inr PNone,
                log_event (LogInfo ''Moderation data loaded successfully'') (st\<lparr>data := d\<rparr>))))"

text \<open>
  A snapshot with the three sections of the kinds the program writes: a dictionary of
  enablement flags, a dictionary of dictionaries of counts, and a list.
\<close>

fun is_flag :: "pyval \<Rightarrow> bool" where
  "is_flag (PBool b) = True"
| "is_flag PNone = False"
| "is_flag (PInt n) = False"
| "is_flag (PStr s) = False"
| "is_flag (PList xs) = False"
| "is_flag (PDict d) = False"

fun is_flag_map :: "pyval \<Rightarrow> bool" where
  "is_flag_map (PDict m) = list_all (\<lambda>kv. is_flag (snd kv)) m"
| "is_flag_map PNone = False"
| "is_flag_map (PBool b) = False"
| "is_flag_map (PInt n) = False"
| "is_flag_map (PStr s) = False"
| "is_flag_map (PList xs) = False"

fun is_list :: "pyval \<Rightarrow> bool" where
  "is_list (PList xs) = True"
| "is_list PNone = False"
| "is_list (PBool b) = False"
| "is_list (PInt n) = False"
| "is_list (PStr s) = False"
| "is_list (PDict d) = False"

fun is_dict :: "pyval \<Rightarrow> bool" where
  "is_dict (PDict d) = True"
| "is_dict PNone = False"
| "is_dict (PBool b) = False"
| "is_dict (PInt n) = False"
| "is_dict (PStr s) = False"
| "is_dict (PList xs) = False"

definition has_sections :: "pydict \<Rightarrow> bool" where
  "has_sections d =
     (map_of d ''enabled_servers'' \<noteq> None \<and> map_of d ''user_warnings'' \<noteq> None \<and>
      map_of d ''moderation_log'' \<noteq> None)"

definition well_typed :: "pydict \<Rightarrow> bool" where
  "well_typed d =
     (case (map_of d ''enabled_servers'', map_of d ''user_warnings'', map_of d ''moderation_log'') of
        (Some es, Some uw, Some ml) \<Rightarrow> is_flag_map es \<and> is_warnings uw \<and> is_list ml
      | _ \<Rightarrow> False)"

section \<open>The enforcement pipeline\<close>

text \<open>
  \<^verbatim>\<open>analyze_image\<close> of \<^verbatim>\<open>run_time.py\<close>: the score its body computes, or the sentinel
  \<^verbatim>\<open>-1.0\<close> when the body raises.
\<close>

definition analyze_image :: "env \<Rightarrow> string \<Rightarrow> real" where
  "analyze_image env u = (case analysis env u of None \<Rightarrow> - 1 | Some score \<Rightarrow> score)"

definition safe_delete_message :: "env \<Rightarrow> bot \<Rightarrow> bool \<times> bot" where
  "safe_delete_message env st =
     (case delete_outcome env of
        Done \<Rightarrow> (True, log_event MessageDeleted st)
      | Forbidden \<Rightarrow> (False, log_event (LogWarning ''Missing permissions to delete message'') st)
      | Failed \<Rightarrow> (False, log_event (LogError ''Error deleting message'') st))"

definition safe_timeout_user :: "env \<Rightarrow> int \<Rightarrow> timedelta \<Rightarrow> real \<Rightarrow> bot \<Rightarrow> bool \<times> bot" where
  "safe_timeout_user env member duration score st =
     (case timeout_outcome env of
        Done \<Rightarrow> (True, log_event (MemberTimedOut member duration) st)
      | Forbidden \<Rightarrow> (False, log_event (LogWarning ''Missing permissions to timeout'') st)
      | Failed \<Rightarrow> (False, log_event (LogError ''Error timing out user'') st))"

text \<open>\<^verbatim>\<open>min(warning_count, 4)\<close> compares its argument with an integer.\<close>

fun int_arg :: "pyval \<Rightarrow> exn + int" where
  "int_arg (PInt n) = Inr n"
| "int_arg (PBool b) = Inr (if b then 1 else 0)"
| "int_arg PNone = Inl TypeError"
| "int_arg (PStr s) = Inl TypeError"
| "int_arg (PList xs) = Inl TypeError"
| "int_arg (PDict d) = Inl TypeError"

text \<open>
  \<^verbatim>\<open>handle_nsfw_infraction\<close>. \<^verbatim>\<open>message.guild.id\<close> raises on a message without a guild;
  \<^verbatim>\<open>message.channel.send\<close> is not guarded, so when it raises the function is left before
  \<^verbatim>\<open>save_data\<close>. Nothing in the function (or in the file) adds to \<^verbatim>\<open>moderation_log\<close>.
\<close>

definition handle_nsfw_infraction :: "env \<Rightarrow> message \<Rightarrow> real \<Rightarrow> bot \<Rightarrow> (exn + pyval) \<times> bot" where
  "handle_nsfw_infraction env msg score st =
     (let user_id = author_id msg in
      case guild msg of
        None \<Rightarrow> (Inl AttributeError, st)
      | Some guild_id \<Rightarrow>
          (case increment_warning guild_id user_id (data st) of
             (Inl e, d1) \<Rightarrow> (Inl e, st\<lparr>data := d1\<rparr>)
           | (Inr r, d1) \<Rightarrow>
               (case get_user_warnings guild_id user_id d1 of
                  (Inl e, d2) \<Rightarrow> (Inl e, st\<lparr>data := d2\<rparr>)
                | (Inr wc, d2) \<Rightarrow>
                    (case pbind (int_arg wc) (\<lambda>n.
                          pbind (calculate_timeout n) (\<lambda>t. Inr (n, t))) of
                       Inl e \<Rightarrow> (Inl e, st\<lparr>data := d2\<rparr>)
                     | Inr (warning_count, timeout_duration) \<Rightarrow>
                         (let (deletion_success, st1) = safe_delete_message env (st\<lparr>data := d2\<rparr>);
                              (timeout_success, st2) =
                                 safe_timeout_user env user_id timeout_duration score st1;
                              e = \<lparr>embed_user = user_id, embed_score = score,
                                   embed_warning_count = warning_count,
                                   embed_timeout = format_duration timeout_duration,
                                   embed_removed = deletion_success,
                                   embed_timed_out = timeout_success,
                                   embed_max_escalation = (warning_count \<ge> 4)\<rparr>
                          in if \<not> send_ok env then (Inl DiscordError, st2)
                             else save_data env (log_event (EmbedSent e) st2))))))"

definition is_image :: "attachment \<Rightarrow> bool" where
  "is_image a =
     (case content_type a of
        None \<Rightarrow> False
      | Some ct \<Rightarrow> ct \<noteq> [] \<and> str_contains ''image'' ct)"

text \<open>The loop over \<^verbatim>\<open>message.attachments\<close> in \<^verbatim>\<open>on_message\<close>.\<close>

fun scan_attachments :: "env \<Rightarrow> message \<Rightarrow> attachment list \<Rightarrow> bot \<Rightarrow> (exn + pyval) \<times> bot" where
  "scan_attachments env msg [] st = (Inr PNone, st)"
| "scan_attachments env msg (a # rest) st =
     (if is_image a then
        (let score = analyze_image env (url a);
             st1 = log_event (AnalyzeImage (url a)) st
         in if score = - 1 then scan_attachments env msg rest st1
            else if score > NSFW_THRESHOLD then handle_nsfw_infraction env msg score st1
            else scan_attachments env msg rest st1)
      else scan_attachments env msg rest st)"

definition on_message :: "env \<Rightarrow> message \<Rightarrow> bot \<Rightarrow> (exn + pyval) \<times> bot" where
  "on_message env msg st =
     (let st1 = process_commands env msg st in
      if author_bot msg then (Inr PNone, st1)
      else
        (case guild msg of
           None \<Rightarrow> (Inr PNone, st1)
         | Some guild_id \<Rightarrow>
             (case is_enabled guild_id (data st1) of
                (Inl e, d1) \<Rightarrow>
                  (Inr PNone, log_event (LogError ''Error checking server status'') (st1\<lparr>data := d1\<rparr>))
              | (Inr enabled, d1) \<Rightarrow>
                  if \<not> truthy enabled then (Inr PNone, st1\<lparr>data := d1\<rparr>)
                  else scan_attachments env msg (attachments msg) (st1\<lparr>data := d1\<rparr>))))"

text \<open>
  An attachment that the loop takes for a violation, and the classifier calls that scanning a
  list of attachments to its end makes.
\<close>

definition violation :: "env \<Rightarrow> attachment \<Rightarrow> bool" where
  "violation env a = (is_image a \<and> analyze_image env (url a) > NSFW_THRESHOLD)"

definition scan_events :: "attachment list \<Rightarrow> event list" where
  "scan_events atts = map (\<lambda>a. AnalyzeImage (url a)) (filter is_image atts)"

text \<open>\<^verbatim>\<open>increment_warning\<close> called \<open>n\<close> times in a row, as a test of the ledger does.\<close>

fun repeat_increment :: "nat \<Rightarrow> int \<Rightarrow> int \<Rightarrow> pydict \<Rightarrow> (exn + pyval) \<times> pydict" where
  "repeat_increment 0 guild_id user_id d = (Inr PNone, d)"
| "repeat_increment (Suc n) guild_id user_id d =
     (case increment_warning guild_id user_id d of
        (Inl e, d1) \<Rightarrow> (Inl e, d1)
      | (Inr r, d1) \<Rightarrow> repeat_increment n guild_id user_id d1)"

text \<open>
  A sequence of \<^verbatim>\<open>increment_warning\<close> calls on any keys, each call run to its end before
  the next: the method has no \<^verbatim>\<open>await\<close> in it.
\<close>

fun run_increments :: "(int \<times> int) list \<Rightarrow> pydict \<Rightarrow> (exn + pyval) \<times> pydict" where
  "run_increments [] d = (Inr PNone, d)"
| "run_increments ((guild_id, user_id) # calls) d =
     (case increment_warning guild_id user_id d of
        (Inl e, d1) \<Rightarrow> (Inl e, d1)
      | (Inr r, d1) \<Rightarrow> run_increments calls d1)"

text \<open>
  The condition of claim C10 in its own words: the content-type hint is present and has
  \<^verbatim>\<open>image\<close> in it.
\<close>

definition has_image_hint :: "attachment \<Rightarrow> bool" where
  "has_image_hint a =
     (case content_type a of None \<Rightarrow> False | Some ct \<Rightarrow> str_contains ''image'' ct)"

section \<open>Scenarios\<close>

text \<open>
  A community 7 that has enforcement enabled, a member 9, a message with two images that the
  classifier scores 0.8 and 0.9, and a platform that refuses the deletion and fails the
  timeout.
\<close>

definition enabled_data :: pydict where
  "enabled_data =
     [(''enabled_servers'', PDict [(''7'', PBool True)]), (''user_warnings'', PDict []),
      (''moderation_log'', PList [])]"

definition enabled_bot :: bot where
  "enabled_bot = \<lparr>data = enabled_data, data_file = NoFile, events = []\<rparr>"

definition two_images :: message where
  "two_images =
     \<lparr>author_bot = False, author_id = 9, guild = Some 7,
      attachments = [\<lparr>content_type = Some ''image/png'', url = ''a''\<rparr>,
                     \<lparr>content_type = Some ''image/jpeg'', url = ''b''\<rparr>]\<rparr>"

definition strict_platform :: env where
  "strict_platform =
     \<lparr>analysis = (\<lambda>u. if u = ''a'' then Some 0.8 else if u = ''b'' then Some 0.9 else None),
      delete_outcome = Forbidden, timeout_outcome = Failed, send_ok = True, disk = WriteOk,
      process_commands = (\<lambda>m st. st)\<rparr>"

text \<open>
  A backing file that parses and has a number where the warnings should be, and a ledger with
  warnings under the keys 0, 3 and 5.
\<close>

definition odd_file :: file_state where
  "odd_file = Parsed (PDict [(''user_warnings'', PInt 3)])"

definition two_communities :: pydict where
  "two_communities =
     [(''enabled_servers'', PDict []),
      (''user_warnings'',
         PDict [(''0'', PDict [(''1'', PInt 2)]), (''3'', PDict [(''1'', PInt 4)]),
                (''5'', PDict [(''1'', PInt 3)])]),
      (''moderation_log'', PList [])]"

section \<open>Properties of the escalation policy\<close>

lemma calculate_timeout_ge4:
  "4 \<le> c \<Longrightarrow> calculate_timeout c = Inr (hours 6)"
  by (simp add: calculate_timeout_def TIMEOUT_LEVELS_def min_def)

lemma calculate_timeout_le0:
  "c \<le> 0 \<Longrightarrow> calculate_timeout c = Inr (hours 6)"
  by (simp add: calculate_timeout_def TIMEOUT_LEVELS_def min_def)

lemma calculate_timeout_cases:
  "calculate_timeout c \<in> {Inr (minutes 10), Inr (hours 1), Inr (hours 3), Inr (hours 6)}"
  by (simp add: calculate_timeout_def TIMEOUT_LEVELS_def min_def)

text \<open>
  Claim C2, as the code has it: the escalation policy gives 10 minutes for count 1, 1 hour
  for count 2, 3 hours for count 3 and 6 hours for every count of 4 or more; a count of 0 or
  less misses the table and gets the default of the lookup, which is the 6 hour maximum (not
  the 10 minutes of count 1); no count gives a duration of zero.
\<close>

theorem calculate_timeout_table:
  "calculate_timeout 1 = Inr (minutes 10) \<and>
   calculate_timeout 2 = Inr (hours 1) \<and>
   calculate_timeout 3 = Inr (hours 3) \<and>
   (\<forall>c. 4 \<le> c \<longrightarrow> calculate_timeout c = Inr (hours 6)) \<and>
   (\<forall>c. c \<le> 0 \<longrightarrow> calculate_timeout c = Inr (hours 6)) \<and>
   (\<forall>c. \<exists>d. calculate_timeout c = Inr d \<and> 0 < total_seconds d)"
proof -
  have pos: "\<exists>d. calculate_timeout c = Inr d \<and> 0 < total_seconds d" for c
    using calculate_timeout_cases [of c] by (auto simp: minutes_def hours_def)
  have "calculate_timeout 1 = Inr (minutes 10)"
    "calculate_timeout 2 = Inr (hours 1)"
    "calculate_timeout 3 = Inr (hours 3)"
    by (simp_all add: calculate_timeout_def TIMEOUT_LEVELS_def)
  with pos show ?thesis
    by (simp add: calculate_timeout_ge4 calculate_timeout_le0)
qed

theorem calculate_timeout_table_witness:
  "(4::int) \<le> 7 \<and> calculate_timeout 7 = Inr (hours 6) \<and>
   (-2::int) \<le> 0 \<and> calculate_timeout (-2) = Inr (hours 6)"
  using calculate_timeout_table by simp

theorem calculate_timeout_zero_counterexample:
  "calculate_timeout 0 = Inr (Timedelta 21600) \<and>
   calculate_timeout 1 = Inr (Timedelta 600) \<and>
   calculate_timeout 0 \<noteq> calculate_timeout 1"
  by (simp add: calculate_timeout_def TIMEOUT_LEVELS_def minutes_def hours_def)

section \<open>Properties of the ledger\<close>

lemma list_all_update:
  "list_all P m \<Longrightarrow> P (k, v) \<Longrightarrow> list_all P (AList.update k v m)"
  by (induction m) auto

lemma list_all_map_of:
  "list_all P m \<Longrightarrow> map_of m k = Some v \<Longrightarrow> P (k, v)"
  by (induction m) (auto split: if_splits)

lemma map_of_update:
  "map_of (AList.update k v m) k' = (if k' = k then Some v else map_of m k')"
  by (simp add: update_conv')

lemma is_warnings_cases:
  assumes "is_warnings uw"
  obtains m where "uw = PDict m" "list_all (\<lambda>kv. is_count_map (snd kv)) m"
  using assms by (cases uw) auto

lemma is_count_map_cases:
  assumes "is_count_map sw"
  obtains m where "sw = PDict m" "list_all (\<lambda>kv. is_count (snd kv)) m"
  using assms by (cases sw) auto

lemma is_count_cases:
  assumes "is_count c"
  obtains n where "c = PInt n"
  using assms by (cases c) auto

text \<open>
  On a well-formed ledger \<^verbatim>\<open>increment_warning\<close> raises nothing, yields \<^verbatim>\<open>None\<close>, keeps
  the ledger well formed, raises the count of its pair by one and touches no other section.
\<close>

lemma increment_warning_wt:
  assumes wt: "wt_data d"
  shows "\<exists>n d'. fst (get_user_warnings g u d) = Inr (PInt n) \<and>
           increment_warning g u d = (Inr PNone, d') \<and> wt_data d' \<and>
           get_user_warnings g u d' = (Inr (PInt (n + 1)), d') \<and>
           (\<forall>k. k \<noteq> ''user_warnings'' \<longrightarrow> map_of d' k = map_of d k)"
proof (cases "map_of d ''user_warnings''")
  case None
  then show ?thesis
    by (simp add: increment_warning_def get_user_warnings_def ensure_section_def
        map_of_update pbind_def wt_data_def)
next
  case (Some uw)
  with assms have "is_warnings uw" by (simp add: wt_data_def)
  then obtain m where uw: "uw = PDict m" and m: "list_all (\<lambda>kv. is_count_map (snd kv)) m"
    by (rule is_warnings_cases)
  show ?thesis
  proof (cases "map_of m (str_int g)")
    case None
    with Some uw m show ?thesis
      by (simp add: increment_warning_def get_user_warnings_def ensure_section_def
        map_of_update pbind_def wt_data_def list_all_update)
  next
    case sw: (Some sw)
    with m have "is_count_map sw" using list_all_map_of by fastforce
    then obtain sm where sw': "sw = PDict sm" and sm: "list_all (\<lambda>kv. is_count (snd kv)) sm"
      by (rule is_count_map_cases)
    show ?thesis
    proof (cases "map_of sm (str_int u)")
      case None
      with Some uw sw sw' m sm show ?thesis
        by (simp add: increment_warning_def get_user_warnings_def ensure_section_def
          map_of_update pbind_def wt_data_def list_all_update)
    next
      case c: (Some c)
      with sm have "is_count c" using list_all_map_of by fastforce
      then obtain n where "c = PInt n" by (rule is_count_cases)
      with Some uw sw sw' c m sm show ?thesis
        by (simp add: increment_warning_def get_user_warnings_def ensure_section_def
          map_of_update pbind_def wt_data_def list_all_update)
    qed
  qed
qed

lemma repeat_increment_wt:
  "wt_data d \<Longrightarrow> fst (get_user_warnings g u d) = Inr (PInt c) \<Longrightarrow>
   \<exists>d'. repeat_increment n g u d = (Inr PNone, d') \<and> wt_data d' \<and>
        fst (get_user_warnings g u d') = Inr (PInt (c + int n))"
proof (induction n arbitrary: d c)
  case 0
  then show ?case by simp
next
  case (Suc n)
  from increment_warning_wt [OF Suc.prems(1), of g u] Suc.prems(2)
  obtain d1 where d1: "increment_warning g u d = (Inr PNone, d1)" "wt_data d1"
    "fst (get_user_warnings g u d1) = Inr (PInt (c + 1))"
    by auto
  from Suc.IH [OF d1(2) d1(3)] d1(1) show ?case
    by (simp add: add.assoc)
qed

text \<open>
  Claim C3, as the code has it: on a ledger whose warning section is well formed, for every
  (community, member) pair \<^verbatim>\<open>increment_warning\<close> reads the current count and stores exactly
  that count plus 1; the call itself yields \<^verbatim>\<open>None\<close>, and it is the following
  \<^verbatim>\<open>get_user_warnings\<close> that returns the new count. Called \<open>n\<close> times in a row on a fresh
  pair, it makes \<^verbatim>\<open>get_user_warnings\<close> return \<open>n\<close>.
\<close>

theorem increment_warning_counts:
  assumes "wt_data d"
  shows "(\<exists>c d'. fst (get_user_warnings g u d) = Inr (PInt c) \<and>
            increment_warning g u d = (Inr PNone, d') \<and>
            fst (get_user_warnings g u d') = Inr (PInt (c + 1))) \<and>
         (fst (get_user_warnings g u d) = Inr (PInt 0) \<longrightarrow>
            (\<exists>d'. repeat_increment n g u d = (Inr PNone, d') \<and>
               fst (get_user_warnings g u d') = Inr (PInt (int n))))"
proof
  from increment_warning_wt [OF assms, of g u]
  show "\<exists>c d'. fst (get_user_warnings g u d) = Inr (PInt c) \<and>
            increment_warning g u d = (Inr PNone, d') \<and>
            fst (get_user_warnings g u d') = Inr (PInt (c + 1))"
    by fastforce
next
  show "fst (get_user_warnings g u d) = Inr (PInt 0) \<longrightarrow>
            (\<exists>d'. repeat_increment n g u d = (Inr PNone, d') \<and>
               fst (get_user_warnings g u d') = Inr (PInt (int n)))"
    using repeat_increment_wt [OF assms, of g u 0 n] by auto
qed

theorem increment_warning_counts_witness:
  "wt_data default_data \<and> fst (get_user_warnings 7 9 default_data) = Inr (PInt 0) \<and>
   (\<exists>d'. repeat_increment 3 7 9 default_data = (Inr PNone, d') \<and>
      fst (get_user_warnings 7 9 d') = Inr (PInt 3))"
proof -
  have wt: "wt_data default_data"
    by (simp add: wt_data_def default_data_def)
  have fresh: "fst (get_user_warnings 7 9 default_data) = Inr (PInt 0)"
    by (simp add: get_user_warnings_def ensure_section_def default_data_def pbind_def)
  from increment_warning_counts [OF wt, of 7 9 3] fresh wt show ?thesis
    by simp
qed

theorem increment_warning_returns_counterexample:
  "fst (increment_warning 7 9 default_data) = Inr PNone \<and>
   fst (get_user_warnings 7 9 (snd (increment_warning 7 9 default_data))) = Inr (PInt 1) \<and>
   fst (increment_warning 7 9 default_data) \<noteq>
     fst (get_user_warnings 7 9 (snd (increment_warning 7 9 default_data)))"
  by (simp add: increment_warning_def get_user_warnings_def ensure_section_def
      default_data_def pbind_def str_int_def str_nat.simps digit_def)

section \<open>The text of an identifier determines it\<close>

lemma digit_inj: "a < 10 \<Longrightarrow> b < 10 \<Longrightarrow> digit a = digit b \<Longrightarrow> a = b"
proof -
  assume a: "a < 10" and b: "b < 10" and eq: "digit a = digit b"
  have "distinct ''0123456789''" by simp
  moreover have "a < length ''0123456789''" "b < length ''0123456789''"
    using a b by simp_all
  ultimately have "(''0123456789'' ! a = ''0123456789'' ! b) = (a = b)"
    by (rule nth_eq_iff_index_eq)
  with a b eq show "a = b" by (simp add: digit_def)
qed

lemma digit_not_minus: "digit a \<noteq> CHR ''-''"
proof -
  have "a mod 10 < length ''0123456789''" by simp
  then have "''0123456789'' ! (a mod 10) \<in> set ''0123456789''"
    by (rule nth_mem)
  then show ?thesis by (auto simp: digit_def)
qed

lemma str_nat_not_Nil: "str_nat n \<noteq> []"
  by (subst str_nat.simps) simp

lemma str_nat_digits: "CHR ''-'' \<notin> set (str_nat n)"
proof (induction n rule: str_nat.induct)
  case (1 n)
  then show ?case
    using digit_not_minus by (subst str_nat.simps) (auto simp: eq_commute)
qed

lemma str_nat_inj: "str_nat n = str_nat m \<Longrightarrow> n = m"
proof (induction n arbitrary: m rule: str_nat.induct)
  case (1 n)
  show ?case
  proof (cases "n < 10")
    case True
    then have n: "str_nat n = [digit n]" by (subst str_nat.simps) simp
    show ?thesis
    proof (cases "m < 10")
      case m: True
      then have "str_nat m = [digit m]" by (subst str_nat.simps) simp
      with n "1.prems" True m show ?thesis by (simp add: digit_inj)
    next
      case False
      then have "str_nat m = str_nat (m div 10) @ [digit (m mod 10)]"
        by (subst str_nat.simps) simp
      with n "1.prems" str_nat_not_Nil [of "m div 10"] show ?thesis by simp
    qed
  next
    case False
    then have n: "str_nat n = str_nat (n div 10) @ [digit (n mod 10)]"
      by (subst str_nat.simps) simp
    show ?thesis
    proof (cases "m < 10")
      case True
      then have "str_nat m = [digit m]" by (subst str_nat.simps) simp
      with n "1.prems" str_nat_not_Nil [of "n div 10"] show ?thesis by simp
    next
      case m: False
      then have "str_nat m = str_nat (m div 10) @ [digit (m mod 10)]"
        by (subst str_nat.simps) simp
      with n "1.prems" have eq: "str_nat (n div 10) = str_nat (m div 10)"
        and d: "digit (n mod 10) = digit (m mod 10)"
        by simp_all
      from "1.IH" [OF False eq] have "n div 10 = m div 10" .
      moreover from d have "n mod 10 = m mod 10" by (simp add: digit_inj)
      ultimately show ?thesis by (metis div_mult_mod_eq)
    qed
  qed
qed

lemma str_int_inj: "str_int a = str_int b \<Longrightarrow> a = b"
proof -
  assume eq: "str_int a = str_int b"
  have hd: "\<And>n. str_nat n \<noteq> CHR ''-'' # s" for s
    using str_nat_digits by (metis list.set_intros(1))
  show "a = b"
  proof (cases "a < 0")
    case True
    show ?thesis
    proof (cases "b < 0")
      case b: True
      with True eq have "str_nat (nat (- a)) = str_nat (nat (- b))"
        by (simp add: str_int_def)
      then have "nat (- a) = nat (- b)" by (rule str_nat_inj)
      with True b show ?thesis by simp
    next
      case False
      with True eq hd show ?thesis by (simp add: str_int_def) metis
    qed
  next
    case False
    show ?thesis
    proof (cases "b < 0")
      case True
      with False eq hd show ?thesis by (simp add: str_int_def)
    next
      case b: False
      with False eq have "str_nat (nat a) = str_nat (nat b)"
        by (simp add: str_int_def)
      then have "nat a = nat b" by (rule str_nat_inj)
      with False b show ?thesis by simp
    qed
  qed
qed

section \<open>Resets\<close>


lemma list_all_delete:
  "list_all P m \<Longrightarrow> list_all P (AList.delete k m)"
  by (induction m) auto

lemma str_int_eq [simp]: "str_int a = str_int b \<longleftrightarrow> a = b"
  using str_int_inj by blast






lemma map_of_delete_None: "map_of m k = None \<Longrightarrow> AList.delete k m = m"
  by (induction m) (auto split: if_splits)





text \<open>
  The branches of \<^verbatim>\<open>reset_warnings\<close> test the truth value of the identifier, so the number
  0, which no community has, is taken for an argument that was not given:
  \<^verbatim>\<open>reset_warnings(0)\<close> clears every community, where \<^verbatim>\<open>reset_warnings(5)\<close> clears
  community 5 alone.
\<close>

lemma reset_warnings_community_zero:
  "fst (get_user_warnings 5 1 two_communities) = Inr (PInt 3) \<and>
   fst (get_user_warnings 5 1 (snd (reset_warnings (Some 0) None two_communities))) =
     Inr (PInt 0) \<and>
   fst (get_user_warnings 0 1 (snd (reset_warnings (Some 5) None two_communities))) =
     Inr (PInt 2) \<and>
   snd (reset_warnings (Some 0) None two_communities) =
     snd (reset_warnings None None two_communities)"
  by (simp add: reset_warnings_def get_user_warnings_def two_communities_def opt_truthy_def
      str_opt_def str_int_def str_nat.simps digit_def ensure_section_def pbind_def)

section \<open>Increments in any order\<close>

text \<open>
  An increment leaves the counts of every other key alone, so whatever the order in which
  whole calls on several keys follow each other, the count of a key ends at its old value
  plus the number of calls on that key.
\<close>

lemma increment_warning_frame:
  assumes wt: "wt_data d" and other: "g' \<noteq> g \<or> u' \<noteq> u"
  shows "fst (get_user_warnings g' u' (snd (increment_warning g u d))) =
         fst (get_user_warnings g' u' d)"
proof (cases "map_of d ''user_warnings''")
  case None
  with other show ?thesis
    by (auto simp: increment_warning_def get_user_warnings_def ensure_section_def
        map_of_update pbind_def wt_data_def)
next
  case (Some uw)
  with assms have "is_warnings uw" by (simp add: wt_data_def)
  then obtain m where uw: "uw = PDict m" and m: "list_all (\<lambda>kv. is_count_map (snd kv)) m"
    by (rule is_warnings_cases)
  show ?thesis
  proof (cases "map_of m (str_int g)")
    case None
    with Some uw m other show ?thesis
      by (auto simp: increment_warning_def get_user_warnings_def ensure_section_def
        map_of_update pbind_def wt_data_def)
  next
    case sw: (Some sw)
    with m have "is_count_map sw" using list_all_map_of by fastforce
    then obtain sm where sw': "sw = PDict sm" and sm: "list_all (\<lambda>kv. is_count (snd kv)) sm"
      by (rule is_count_map_cases)
    show ?thesis
    proof (cases "map_of sm (str_int u)")
      case None
      with Some uw sw sw' other show ?thesis
        by (auto simp: increment_warning_def get_user_warnings_def ensure_section_def
          map_of_update pbind_def)
    next
      case c: (Some c)
      with sm have "is_count c" using list_all_map_of by fastforce
      then obtain n where "c = PInt n" by (rule is_count_cases)
      with Some uw sw sw' c other show ?thesis
        by (auto simp: increment_warning_def get_user_warnings_def ensure_section_def
          map_of_update pbind_def)
    qed
  qed
qed

lemma run_increments_counts:
  "wt_data d \<Longrightarrow> fst (get_user_warnings g u d) = Inr (PInt c) \<Longrightarrow>
   \<exists>d'. run_increments calls d = (Inr PNone, d') \<and> wt_data d' \<and>
     fst (get_user_warnings g u d') = Inr (PInt (c + int (count_list calls (g, u))))"
proof (induction calls arbitrary: d c)
  case Nil
  then show ?case by simp
next
  case (Cons call calls)
  obtain g1 u1 where call: "call = (g1, u1)" by (cases call)
  from increment_warning_wt [OF Cons.prems(1), of g1 u1]
  obtain n d1 where d1: "increment_warning g1 u1 d = (Inr PNone, d1)" "wt_data d1"
    and n: "fst (get_user_warnings g1 u1 d) = Inr (PInt n)"
      "get_user_warnings g1 u1 d1 = (Inr (PInt (n + 1)), d1)"
    by blast
  show ?case
  proof (cases "g1 = g \<and> u1 = u")
    case True
    with n Cons.prems(2) have "fst (get_user_warnings g u d1) = Inr (PInt (c + 1))"
      by simp
    from Cons.IH [OF d1(2) this] call True d1(1) show ?thesis
      by (simp add: add.assoc)
  next
    case False
    then have "g \<noteq> g1 \<or> u \<noteq> u1" by auto
    from increment_warning_frame [OF Cons.prems(1) this] d1(1) Cons.prems(2)
    have "fst (get_user_warnings g u d1) = Inr (PInt c)" by simp
    from Cons.IH [OF d1(2) this] call False d1(1) show ?thesis
      by auto
  qed
qed

section \<open>Properties of the pipeline\<close>

lemma calculate_timeout_total: "\<exists>t. calculate_timeout c = Inr t"
  by (simp add: calculate_timeout_def TIMEOUT_LEVELS_def)

lemma safe_delete_message_effect:
  "\<exists>st' pre. safe_delete_message env st = (delete_outcome env = Done, st') \<and>
      data st' = data st \<and> data_file st' = data_file st \<and> events st' = events st @ pre"
  by (cases "delete_outcome env") (simp_all add: safe_delete_message_def log_event_def)

lemma safe_timeout_user_effect:
  "\<exists>st' pre. safe_timeout_user env u t score st = (timeout_outcome env = Done, st') \<and>
      data st' = data st \<and> data_file st' = data_file st \<and> events st' = events st @ pre"
  by (cases "timeout_outcome env") (simp_all add: safe_timeout_user_def log_event_def)

lemma save_data_effect:
  "\<exists>st' post. save_data env st = (Inr PNone, st') \<and> data st' = data st \<and>
     events st' = events st @ post \<and>
     (disk env = WriteOk \<longrightarrow> post = [FileWritten (data st)] \<and>
        data_file st' = Parsed (PDict (data st)))"
  by (cases "disk env") (simp_all add: save_data_def log_event_def)

lemma handle_nsfw_infraction_wt:
  assumes wt: "wt_data (data st)" and g: "guild msg = Some g"
  shows "\<exists>c r st'. fst (get_user_warnings g (author_id msg) (data st)) = Inr (PInt c) \<and>
        handle_nsfw_infraction env msg score st = (r, st') \<and>
        wt_data (data st') \<and>
        fst (get_user_warnings g (author_id msg) (data st')) = Inr (PInt (c + 1)) \<and>
        map_of (data st') ''moderation_log'' = map_of (data st) ''moderation_log'' \<and>
        (\<not> send_ok env \<longrightarrow> r = Inl DiscordError \<and> data_file st' = data_file st) \<and>
        (send_ok env \<longrightarrow> r = Inr PNone \<and>
           (\<exists>pre e post. events st' = events st @ pre @ EmbedSent e # post \<and>
              embed_score e = score \<and> embed_warning_count e = c + 1 \<and>
              embed_removed e = (delete_outcome env = Done) \<and>
              embed_timed_out e = (timeout_outcome env = Done) \<and>
              (disk env = WriteOk \<longrightarrow> post = [FileWritten (data st')] \<and>
                 data_file st' = Parsed (PDict (data st')))))"
proof -
  let ?u = "author_id msg"
  from increment_warning_wt [OF wt, of g ?u]
  obtain c d' where c: "fst (get_user_warnings g ?u (data st)) = Inr (PInt c)"
    and inc: "increment_warning g ?u (data st) = (Inr PNone, d')"
    and wt': "wt_data d'"
    and get: "get_user_warnings g ?u d' = (Inr (PInt (c + 1)), d')"
    and frame: "map_of d' ''moderation_log'' = map_of (data st) ''moderation_log''"
    by auto
  obtain t where t: "calculate_timeout (c + 1) = Inr t"
    using calculate_timeout_total by blast
  obtain st1 p1 where del: "safe_delete_message env (st\<lparr>data := d'\<rparr>) =
      (delete_outcome env = Done, st1)"
    and st1: "data st1 = d'" "data_file st1 = data_file st" "events st1 = events st @ p1"
    using safe_delete_message_effect [of env "st\<lparr>data := d'\<rparr>"] by auto
  obtain st2 p2 where tmo: "safe_timeout_user env ?u t score st1 =
      (timeout_outcome env = Done, st2)"
    and st2: "data st2 = d'" "data_file st2 = data_file st" "events st2 = events st @ p1 @ p2"
    using safe_timeout_user_effect [of env ?u t score st1] st1 by auto
  let ?e = "\<lparr>embed_user = ?u, embed_score = score, embed_warning_count = c + 1,
             embed_timeout = format_duration t,
             embed_removed = (delete_outcome env = Done),
             embed_timed_out = (timeout_outcome env = Done),
             embed_max_escalation = (c + 1 \<ge> 4)\<rparr>"
  have run: "handle_nsfw_infraction env msg score st =
      (if \<not> send_ok env then (Inl DiscordError, st2)
       else save_data env (log_event (EmbedSent ?e) st2))"
    using g inc get t del tmo
    by (simp add: handle_nsfw_infraction_def pbind_def)
  show ?thesis
  proof (cases "send_ok env")
    case False
    with run c wt' get frame st2 show ?thesis by simp
  next
    case True
    let ?st3 = "log_event (EmbedSent ?e) st2"
    from save_data_effect [of env ?st3]
    obtain st' post where s: "save_data env ?st3 = (Inr PNone, st')"
      and d: "data st' = data ?st3"
      and ev: "events st' = events ?st3 @ post"
      and ok: "disk env = WriteOk \<longrightarrow> post = [FileWritten (data ?st3)] \<and>
                 data_file st' = Parsed (PDict (data ?st3))"
      by blast
    from d st2 have d2: "data st' = d'" by (simp add: log_event_def)
    from ev st2 have ev2: "events st' = events st @ (p1 @ p2) @ EmbedSent ?e # post"
      by (simp add: log_event_def)
    from ok d2 st2 have ok2: "disk env = WriteOk \<longrightarrow> post = [FileWritten (data st')] \<and>
                 data_file st' = Parsed (PDict (data st'))"
      by (simp add: log_event_def)
    have h: "handle_nsfw_infraction env msg score st = (Inr PNone, st')"
      using run True s by simp
    have "\<exists>pre e post. events st' = events st @ pre @ EmbedSent e # post \<and>
              embed_score e = score \<and> embed_warning_count e = c + 1 \<and>
              embed_removed e = (delete_outcome env = Done) \<and>
              embed_timed_out e = (timeout_outcome env = Done) \<and>
              (disk env = WriteOk \<longrightarrow> post = [FileWritten (data st')] \<and>
                 data_file st' = Parsed (PDict (data st')))"
      using ev2 ok2 by (intro exI [of _ "p1 @ p2"] exI [of _ ?e] exI [of _ post]) simp
    with h c wt' get frame True d2 show ?thesis
      by simp
  qed
qed

lemma sentinel_no_violation:
  "analysis env (url a) = None \<Longrightarrow> \<not> violation env a"
  by (simp add: violation_def analyze_image_def NSFW_THRESHOLD_def)

lemma scan_step_violation:
  "violation env a \<Longrightarrow>
   scan_attachments env msg (a # rest) st =
     handle_nsfw_infraction env msg (analyze_image env (url a))
       (st\<lparr>events := events st @ [AnalyzeImage (url a)]\<rparr>)"
  by (auto simp: violation_def log_event_def NSFW_THRESHOLD_def Let_def)

lemma scan_step_clean:
  "is_image a \<Longrightarrow> \<not> violation env a \<Longrightarrow>
   scan_attachments env msg (a # rest) st =
     scan_attachments env msg rest (st\<lparr>events := events st @ [AnalyzeImage (url a)]\<rparr>)"
  by (simp add: violation_def log_event_def Let_def)

lemma scan_step_not_image:
  "\<not> is_image a \<Longrightarrow> scan_attachments env msg (a # rest) st = scan_attachments env msg rest st"
  by simp

lemma scan_events_Cons:
  "scan_events (a # atts) = (if is_image a then AnalyzeImage (url a) # scan_events atts else scan_events atts)"
  by (simp add: scan_events_def)

lemma scan_events_Nil: "scan_events [] = []"
  by (simp add: scan_events_def)

lemma scan_no_violation:
  "\<forall>a\<in>set atts. \<not> violation env a \<Longrightarrow>
   scan_attachments env msg atts st = (Inr PNone, st\<lparr>events := events st @ scan_events atts\<rparr>)"
proof (induction atts arbitrary: st)
  case Nil
  show ?case by (simp add: scan_events_Nil)
next
  case (Cons a atts)
  then have IH: "\<And>st. scan_attachments env msg atts st =
      (Inr PNone, st\<lparr>events := events st @ scan_events atts\<rparr>)"
    and a: "\<not> violation env a"
    by simp_all
  show ?case
  proof (cases "is_image a")
    case True
    with a show ?thesis
      by (simp add: scan_step_clean IH scan_events_Cons del: scan_attachments.simps)
  next
    case False
    then show ?thesis
      by (simp add: scan_step_not_image IH scan_events_Cons del: scan_attachments.simps)
  qed
qed

lemma scan_first_violation:
  "\<forall>b\<in>set pre. \<not> violation env b \<Longrightarrow> violation env a \<Longrightarrow>
   scan_attachments env msg (pre @ a # rest) st =
     handle_nsfw_infraction env msg (analyze_image env (url a))
       (st\<lparr>events := events st @ scan_events pre @ [AnalyzeImage (url a)]\<rparr>)"
proof (induction pre arbitrary: st)
  case Nil
  then show ?case
    by (simp add: scan_step_violation scan_events_Nil del: scan_attachments.simps)
next
  case (Cons b pre)
  then have IH: "\<And>st. scan_attachments env msg (pre @ a # rest) st =
     handle_nsfw_infraction env msg (analyze_image env (url a))
       (st\<lparr>events := events st @ scan_events pre @ [AnalyzeImage (url a)]\<rparr>)"
    and b: "\<not> violation env b"
    by simp_all
  show ?case
  proof (cases "is_image b")
    case True
    with b show ?thesis
      by (simp add: scan_step_clean IH scan_events_Cons del: scan_attachments.simps)
  next
    case False
    then show ?thesis
      by (simp add: scan_step_not_image IH scan_events_Cons del: scan_attachments.simps)
  qed
qed

lemma scan_attachments_char:
  "scan_attachments env msg atts st =
     (case dropWhile (\<lambda>a. \<not> violation env a) atts of
        [] \<Rightarrow> (Inr PNone, st\<lparr>events := events st @ scan_events atts\<rparr>)
      | a # rest \<Rightarrow>
          handle_nsfw_infraction env msg (analyze_image env (url a))
            (st\<lparr>events := events st @
               scan_events (takeWhile (\<lambda>a. \<not> violation env a) atts) @ [AnalyzeImage (url a)]\<rparr>))"
proof (cases "dropWhile (\<lambda>a. \<not> violation env a) atts")
  case Nil
  then have "\<forall>a\<in>set atts. \<not> violation env a" by simp
  from scan_no_violation [OF this] show ?thesis unfolding Nil by simp
next
  case (Cons a rest)
  let ?pre = "takeWhile (\<lambda>a. \<not> violation env a) atts"
  have split: "atts = ?pre @ a # rest"
    using Cons takeWhile_dropWhile_id [of "\<lambda>a. \<not> violation env a" atts] by simp
  have a: "violation env a"
    using Cons hd_dropWhile [of "\<lambda>a. \<not> violation env a" atts] by auto
  have pre: "\<forall>b\<in>set ?pre. \<not> violation env b"
    using set_takeWhileD by fastforce
  from scan_first_violation [OF pre a, of msg rest st] split show ?thesis
    unfolding Cons by simp
qed

lemma scan_attachments_filter:
  "scan_attachments env msg (filter is_image atts) st = scan_attachments env msg atts st"
  by (induction atts arbitrary: st) (simp_all add: Let_def)

lemma startswith_iff: "startswith s p \<longleftrightarrow> (\<exists>q. s = p @ q)"
  by (induction s p rule: startswith.induct) auto

lemma str_contains_iff:
  "str_contains n s \<longleftrightarrow> (\<exists>p q. s = p @ n @ q)"
proof (induction s)
  case Nil
  show ?case by auto
next
  case (Cons c s)
  show ?case
  proof
    assume "str_contains n (c # s)"
    then consider "startswith (c # s) n" | "str_contains n s" by auto
    then show "\<exists>p q. c # s = p @ n @ q"
    proof cases
      case 1
      then obtain q where "c # s = n @ q" using startswith_iff by blast
      then have "c # s = [] @ n @ q" by simp
      then show ?thesis by blast
    next
      case 2
      with Cons.IH obtain p q where "s = p @ n @ q" by blast
      then have "c # s = (c # p) @ n @ q" by simp
      then show ?thesis by blast
    qed
  next
    assume "\<exists>p q. c # s = p @ n @ q"
    then obtain p q where pq: "c # s = p @ n @ q" by blast
    show "str_contains n (c # s)"
    proof (cases p)
      case Nil
      with pq have "startswith (c # s) n" using startswith_iff by auto
      then show ?thesis by simp
    next
      case (Cons c' p')
      with pq have "s = p' @ n @ q" by simp
      with Cons.IH have "str_contains n s" by blast
      then show ?thesis by simp
    qed
  qed
qed

section \<open>The claims about the pipeline\<close>

text \<open>The definitions that evaluate a scenario.\<close>

lemmas eval_defs = handle_nsfw_infraction_def increment_warning_def get_user_warnings_def
  ensure_section_def default_data_def pbind_def str_int_def str_nat.simps digit_def
  calculate_timeout_def TIMEOUT_LEVELS_def safe_delete_message_def safe_timeout_user_def
  save_data_def log_event_def init_def enabled_bot_def enabled_data_def two_images_def
  strict_platform_def wt_data_def is_enabled_def analyze_image_def NSFW_THRESHOLD_def
  is_image_def violation_def scan_events_def on_message_def minutes_def hours_def format_duration_def Let_def

text \<open>
  Claim C1, as the code has it: on a well-formed ledger, for every violation that
  \<^verbatim>\<open>handle_nsfw_infraction\<close> handles, the member's warning count goes up by exactly one,
  whatever the deletion, the timeout and the notification did; no audit entry is added
  (\<^verbatim>\<open>moderation_log\<close> is left as it was: nothing in the program writes to it); and once the
  notification, which carries the score, the new count and the two outcomes, has been sent, the
  full snapshot is saved.
\<close>

theorem handle_nsfw_infraction_effects:
  assumes "wt_data (data st)" and "guild msg = Some g"
  shows "\<exists>c r st'. fst (get_user_warnings g (author_id msg) (data st)) = Inr (PInt c) \<and>
        handle_nsfw_infraction env msg score st = (r, st') \<and>
        fst (get_user_warnings g (author_id msg) (data st')) = Inr (PInt (c + 1)) \<and>
        map_of (data st') ''moderation_log'' = map_of (data st) ''moderation_log'' \<and>
        (send_ok env \<longrightarrow> r = Inr PNone \<and>
           (\<exists>pre e post. events st' = events st @ pre @ EmbedSent e # post \<and>
              embed_score e = score \<and> embed_warning_count e = c + 1 \<and>
              embed_removed e = (delete_outcome env = Done) \<and>
              embed_timed_out e = (timeout_outcome env = Done) \<and>
              (disk env = WriteOk \<longrightarrow> post = [FileWritten (data st')] \<and>
                 data_file st' = Parsed (PDict (data st')))))"
  using handle_nsfw_infraction_wt [OF assms, of env score] by blast

theorem handle_nsfw_infraction_effects_witness:
  "wt_data (data enabled_bot) \<and> guild two_images = Some 7 \<and> send_ok strict_platform \<and>
   disk strict_platform = WriteOk \<and>
   (\<exists>r st'. handle_nsfw_infraction strict_platform two_images 0.8 enabled_bot = (r, st') \<and>
      fst (get_user_warnings 7 9 (data enabled_bot)) = Inr (PInt 0) \<and>
      fst (get_user_warnings 7 9 (data st')) = Inr (PInt 1) \<and>
      r = Inr PNone \<and> data_file st' = Parsed (PDict (data st')))"
proof -
  have wt: "wt_data (data enabled_bot)"
    by (simp add: wt_data_def enabled_bot_def enabled_data_def)
  have g: "guild two_images = Some 7"
    by (simp add: two_images_def)
  have c0: "fst (get_user_warnings 7 9 (data enabled_bot)) = Inr (PInt 0)"
    by (simp add: get_user_warnings_def ensure_section_def enabled_bot_def enabled_data_def pbind_def)
  have env: "send_ok strict_platform" "disk strict_platform = WriteOk"
    by (simp_all add: strict_platform_def)
  from handle_nsfw_infraction_effects [OF wt g, of strict_platform "0.8"] c0 env
  have "\<exists>r st'. handle_nsfw_infraction strict_platform two_images 0.8 enabled_bot = (r, st') \<and>
      fst (get_user_warnings 7 9 (data st')) = Inr (PInt 1) \<and>
      r = Inr PNone \<and> data_file st' = Parsed (PDict (data st'))"
    by (auto simp: two_images_def)
  with wt g c0 env show ?thesis by blast
qed

theorem handle_nsfw_infraction_audit_counterexample:
  "fst (handle_nsfw_infraction strict_platform two_images 0.8 enabled_bot) = Inr PNone \<and>
   map_of (data (snd (handle_nsfw_infraction strict_platform two_images 0.8 enabled_bot)))
     ''moderation_log'' = Some (PList [])"
  by (simp add: eval_defs)

lemma on_message_enabled:
  assumes "\<not> author_bot msg" and "guild msg = Some g"
    and "is_enabled g (data (process_commands env msg st)) = (Inr v, d1)" and "truthy v"
  shows "on_message env msg st =
     scan_attachments env msg (attachments msg) ((process_commands env msg st)\<lparr>data := d1\<rparr>)"
  using assms by (simp add: on_message_def)

lemma get_user_warnings_wt:
  "wt_data d \<Longrightarrow> \<exists>c. fst (get_user_warnings g u d) = Inr (PInt c)"
  using increment_warning_wt [of d g u] by blast

lemma scan_attachments_count:
  assumes wt: "wt_data (data st)" and g: "guild msg = Some g"
  shows "\<exists>c r st'. fst (get_user_warnings g (author_id msg) (data st)) = Inr (PInt c) \<and>
     scan_attachments env msg atts st = (r, st') \<and>
     fst (get_user_warnings g (author_id msg) (data st')) =
       Inr (PInt (c + (if \<exists>a\<in>set atts. violation env a then 1 else 0)))"
proof (cases "dropWhile (\<lambda>a. \<not> violation env a) atts")
  case Nil
  then have none: "\<forall>a\<in>set atts. \<not> violation env a" by simp
  obtain c where "fst (get_user_warnings g (author_id msg) (data st)) = Inr (PInt c)"
    using get_user_warnings_wt [OF wt] by blast
  with none scan_no_violation [OF none, of msg st] show ?thesis by simp
next
  case (Cons a rest)
  have a: "violation env a"
    using Cons hd_dropWhile [of "\<lambda>a. \<not> violation env a" atts] by auto
  have "a \<in> set atts"
    using Cons set_dropWhileD [of a "\<lambda>a. \<not> violation env a" atts] by simp
  with a have some: "\<exists>a\<in>set atts. violation env a" by blast
  let ?st1 = "st\<lparr>events := events st @
       scan_events (takeWhile (\<lambda>a. \<not> violation env a) atts) @ [AnalyzeImage (url a)]\<rparr>"
  have run: "scan_attachments env msg atts st =
      handle_nsfw_infraction env msg (analyze_image env (url a)) ?st1"
    using scan_attachments_char [of env msg atts st] unfolding Cons by simp
  have "wt_data (data ?st1)" using wt by simp
  from handle_nsfw_infraction_wt [OF this g, of env "analyze_image env (url a)"] run some
  show ?thesis by auto
qed

text \<open>
  Claim C4: for every inbound message of a member (not a bot) in an enabled community, the
  attachments are scanned in arrival order; an attachment is a violation exactly when it is an
  image and its score is strictly above the threshold 0.5; at the first violation the pipeline
  enforces with that attachment's score and scans nothing after it, so that on a well-formed
  ledger the author's count goes up by one if any attachment is flagged and stays else.
\<close>

theorem on_message_first_violation:
  assumes "\<not> author_bot msg" and "guild msg = Some g"
    and "is_enabled g (data (process_commands env msg st)) = (Inr v, d1)" and "truthy v"
  shows "(\<forall>a. violation env a \<longleftrightarrow> is_image a \<and> analyze_image env (url a) > 0.5) \<and>
     on_message env msg st =
       (let st1 = (process_commands env msg st)\<lparr>data := d1\<rparr> in
        case dropWhile (\<lambda>a. \<not> violation env a) (attachments msg) of
          [] \<Rightarrow> (Inr PNone, st1\<lparr>events := events st1 @ scan_events (attachments msg)\<rparr>)
        | a # rest \<Rightarrow>
            handle_nsfw_infraction env msg (analyze_image env (url a))
              (st1\<lparr>events := events st1 @
                 scan_events (takeWhile (\<lambda>a. \<not> violation env a) (attachments msg)) @
                 [AnalyzeImage (url a)]\<rparr>)) \<and>
     (wt_data d1 \<longrightarrow>
        (\<exists>c r st'. fst (get_user_warnings g (author_id msg) d1) = Inr (PInt c) \<and>
           on_message env msg st = (r, st') \<and>
           fst (get_user_warnings g (author_id msg) (data st')) =
             Inr (PInt (c + (if \<exists>a\<in>set (attachments msg). violation env a then 1 else 0)))))"
proof -
  let ?st1 = "(process_commands env msg st)\<lparr>data := d1\<rparr>"
  have run: "on_message env msg st = scan_attachments env msg (attachments msg) ?st1"
    using assms by (rule on_message_enabled)
  have "wt_data d1 \<longrightarrow>
        (\<exists>c r st'. fst (get_user_warnings g (author_id msg) d1) = Inr (PInt c) \<and>
           on_message env msg st = (r, st') \<and>
           fst (get_user_warnings g (author_id msg) (data st')) =
             Inr (PInt (c + (if \<exists>a\<in>set (attachments msg). violation env a then 1 else 0))))"
  proof
    assume "wt_data d1"
    then have "wt_data (data ?st1)" by simp
    from scan_attachments_count [OF this assms(2), of env "attachments msg"] run
    show "\<exists>c r st'. fst (get_user_warnings g (author_id msg) d1) = Inr (PInt c) \<and>
           on_message env msg st = (r, st') \<and>
           fst (get_user_warnings g (author_id msg) (data st')) =
             Inr (PInt (c + (if \<exists>a\<in>set (attachments msg). violation env a then 1 else 0)))"
      by simp
  qed
  moreover have "\<forall>a. violation env a \<longleftrightarrow> is_image a \<and> analyze_image env (url a) > 0.5"
    by (simp add: violation_def NSFW_THRESHOLD_def)
  moreover have "on_message env msg st =
       (let st1 = ?st1 in
        case dropWhile (\<lambda>a. \<not> violation env a) (attachments msg) of
          [] \<Rightarrow> (Inr PNone, st1\<lparr>events := events st1 @ scan_events (attachments msg)\<rparr>)
        | a # rest \<Rightarrow>
            handle_nsfw_infraction env msg (analyze_image env (url a))
              (st1\<lparr>events := events st1 @
                 scan_events (takeWhile (\<lambda>a. \<not> violation env a) (attachments msg)) @
                 [AnalyzeImage (url a)]\<rparr>))"
    unfolding run Let_def by (rule scan_attachments_char)
  ultimately show ?thesis by blast
qed


theorem on_message_first_violation_witness:
  "\<not> author_bot two_images \<and> guild two_images = Some 7 \<and>
   is_enabled 7 (data (process_commands strict_platform two_images enabled_bot)) =
     (Inr (PBool True), enabled_data) \<and>
   truthy (PBool True) \<and> wt_data enabled_data \<and>
   (\<exists>a\<in>set (attachments two_images). violation strict_platform a) \<and>
   (\<exists>r st'. on_message strict_platform two_images enabled_bot = (r, st') \<and>
      fst (get_user_warnings 7 9 (data st')) = Inr (PInt 1) \<and>
      events st' =
        [AnalyzeImage ''a'', LogWarning ''Missing permissions to delete message'',
         LogError ''Error timing out user'',
         EmbedSent \<lparr>embed_user = 9, embed_score = 0.8, embed_warning_count = 1,
           embed_timeout = ''10m'', embed_removed = False, embed_timed_out = False,
           embed_max_escalation = False\<rparr>,
         FileWritten (data st')])"
proof -
  have h1: "\<not> author_bot two_images" and h2: "guild two_images = Some 7"
    by (simp_all add: two_images_def)
  have h3: "is_enabled 7 (data (process_commands strict_platform two_images enabled_bot)) =
     (Inr (PBool True), enabled_data)"
    by (simp add: eval_defs)
  have h4: "truthy (PBool True)" by simp
  have wt: "wt_data enabled_data" by (simp add: eval_defs)
  have v: "\<exists>a\<in>set (attachments two_images). violation strict_platform a"
    by (simp add: eval_defs)
  have d: "dropWhile (\<lambda>a. \<not> violation strict_platform a) (attachments two_images) =
      attachments two_images"
    by (simp add: eval_defs)
  have t: "takeWhile (\<lambda>a. \<not> violation strict_platform a) (attachments two_images) = []"
    by (simp add: eval_defs)
  from on_message_first_violation [OF h1 h2 h3 h4]
  have "on_message strict_platform two_images enabled_bot =
     handle_nsfw_infraction strict_platform two_images 0.8
       (enabled_bot\<lparr>events := [AnalyzeImage ''a'']\<rparr>)"
    unfolding d t by (simp add: eval_defs)
  then have "\<exists>r st'. on_message strict_platform two_images enabled_bot = (r, st') \<and>
      fst (get_user_warnings 7 9 (data st')) = Inr (PInt 1) \<and>
      events st' =
        [AnalyzeImage ''a'', LogWarning ''Missing permissions to delete message'',
         LogError ''Error timing out user'',
         EmbedSent \<lparr>embed_user = 9, embed_score = 0.8, embed_warning_count = 1,
           embed_timeout = ''10m'', embed_removed = False, embed_timed_out = False,
           embed_max_escalation = False\<rparr>,
         FileWritten (data st')]"
    by (simp add: eval_defs)
  with h1 h2 h3 h4 wt v show ?thesis by blast
qed

text \<open>
  A message of a bot with a flagged image in the enabled community 7: \<^verbatim>\<open>on_message\<close> returns
  before the scan and nothing is classified or enforced.
\<close>

theorem on_message_bot_author_counterexample:
  "fst (is_enabled 7 (data enabled_bot)) = Inr (PBool True) \<and>
   violation strict_platform (hd (attachments two_images)) \<and>
   on_message strict_platform (two_images\<lparr>author_bot := True\<rparr>) enabled_bot =
     (Inr PNone, enabled_bot)"
  by (simp add: eval_defs)

lemma sentinel_clean:
  "analyze_image env (url a) = - 1 \<Longrightarrow> \<not> violation env a"
  by (simp add: violation_def NSFW_THRESHOLD_def)

text \<open>
  Claim C6: a failure of the classifier comes back as the sentinel \<open>-1\<close>; an attachment with
  the sentinel is no violation, the scan goes on with the next attachment and changes nothing
  but the record of the one classifier call; when every image of a message fails, the ledger
  and the file are as before (no warning, no audit entry, no save) and each image was
  classified exactly once.
\<close>

theorem classifier_failure_skipped:
  "(analysis env u = None \<longrightarrow> analyze_image env u = - 1) \<and>
   (is_image a \<and> analyze_image env (url a) = - 1 \<longrightarrow>
      scan_attachments env msg (a # rest) st =
        scan_attachments env msg rest (st\<lparr>events := events st @ [AnalyzeImage (url a)]\<rparr>)) \<and>
   ((\<forall>a\<in>set atts. is_image a \<longrightarrow> analyze_image env (url a) = - 1) \<longrightarrow>
      scan_attachments env msg atts st =
        (Inr PNone, st\<lparr>events := events st @ scan_events atts\<rparr>))"
proof (intro conjI impI)
  assume "analysis env u = None"
  then show "analyze_image env u = - 1" by (simp add: analyze_image_def)
next
  assume "is_image a \<and> analyze_image env (url a) = - 1"
  then show "scan_attachments env msg (a # rest) st =
        scan_attachments env msg rest (st\<lparr>events := events st @ [AnalyzeImage (url a)]\<rparr>)"
    using scan_step_clean sentinel_clean by blast
next
  assume "\<forall>a\<in>set atts. is_image a \<longrightarrow> analyze_image env (url a) = - 1"
  then have "\<forall>a\<in>set atts. \<not> violation env a"
    using sentinel_clean by (auto simp: violation_def)
  then show "scan_attachments env msg atts st =
        (Inr PNone, st\<lparr>events := events st @ scan_events atts\<rparr>)"
    by (rule scan_no_violation)
qed

theorem classifier_failure_skipped_witness:
  "analysis strict_platform ''c'' = None \<and> analyze_image strict_platform ''c'' = - 1 \<and>
   is_image \<lparr>content_type = Some ''image/gif'', url = ''c''\<rparr> \<and>
   scan_attachments strict_platform two_images
       [\<lparr>content_type = Some ''image/gif'', url = ''c''\<rparr>] enabled_bot =
     (Inr PNone, enabled_bot\<lparr>events := [AnalyzeImage ''c'']\<rparr>) \<and>
   scan_attachments strict_platform two_images
       (\<lparr>content_type = Some ''image/gif'', url = ''c''\<rparr> # attachments two_images) enabled_bot =
     scan_attachments strict_platform two_images (attachments two_images)
       (enabled_bot\<lparr>events := [AnalyzeImage ''c'']\<rparr>)"
proof -
  let ?a = "\<lparr>content_type = Some ''image/gif'', url = ''c''\<rparr>"
  have h1: "analysis strict_platform ''c'' = None"
    by (simp add: strict_platform_def)
  have h2: "is_image ?a" by (simp add: is_image_def)
  from classifier_failure_skipped [of strict_platform "''c''" ?a two_images
      "attachments two_images" enabled_bot "[?a]"] h1 h2
  show ?thesis
    by (simp add: scan_events_def enabled_bot_def del: scan_attachments.simps)
qed

lemma is_image_hint: "is_image a = has_image_hint a"
  by (auto simp: is_image_def has_image_hint_def split: option.splits)

text \<open>
  Claim C10: an attachment whose content-type hint is absent or has no \<^verbatim>\<open>image\<close> in it is
  skipped without a call of the classifier: the scan of a message is the scan of its
  attachments with an image hint, and a message without any leaves the bot untouched, whatever
  the classifier would have said.
\<close>

theorem non_image_attachment_ignored:
  "(has_image_hint a \<longleftrightarrow> (\<exists>ct. content_type a = Some ct \<and> (\<exists>p q. ct = p @ ''image'' @ q))) \<and>
   (\<not> has_image_hint a \<longrightarrow>
      scan_attachments env msg (a # rest) st = scan_attachments env msg rest st) \<and>
   scan_attachments env msg atts st = scan_attachments env msg (filter has_image_hint atts) st \<and>
   ((\<forall>a\<in>set atts. \<not> has_image_hint a) \<longrightarrow> scan_attachments env msg atts st = (Inr PNone, st))"
proof (intro conjI impI)
  show "has_image_hint a \<longleftrightarrow> (\<exists>ct. content_type a = Some ct \<and> (\<exists>p q. ct = p @ ''image'' @ q))"
    by (cases "content_type a") (simp_all add: has_image_hint_def str_contains_iff)
next
  assume "\<not> has_image_hint a"
  then show "scan_attachments env msg (a # rest) st = scan_attachments env msg rest st"
    by (simp add: is_image_hint)
next
  have "filter has_image_hint atts = filter is_image atts"
    by (simp add: is_image_hint [abs_def])
  then show "scan_attachments env msg atts st =
      scan_attachments env msg (filter has_image_hint atts) st"
    by (simp add: scan_attachments_filter)
next
  assume "\<forall>a\<in>set atts. \<not> has_image_hint a"
  then have "filter is_image atts = []"
    by (simp add: is_image_hint)
  with scan_attachments_filter [of env msg atts st]
  show "scan_attachments env msg atts st = (Inr PNone, st)"
    by simp
qed

theorem non_image_attachment_ignored_witness:
  "\<not> has_image_hint \<lparr>content_type = None, url = ''a''\<rparr> \<and>
   \<not> has_image_hint \<lparr>content_type = Some ''video/mp4'', url = ''b''\<rparr> \<and>
   scan_attachments strict_platform two_images
     [\<lparr>content_type = None, url = ''a''\<rparr>, \<lparr>content_type = Some ''video/mp4'', url = ''b''\<rparr>]
     enabled_bot = (Inr PNone, enabled_bot)"
proof -
  let ?atts = "[\<lparr>content_type = None, url = ''a''\<rparr>,
                \<lparr>content_type = Some ''video/mp4'', url = ''b''\<rparr>]"
  have h: "\<not> has_image_hint \<lparr>content_type = None, url = ''a''\<rparr>"
    "\<not> has_image_hint \<lparr>content_type = Some ''video/mp4'', url = ''b''\<rparr>"
    by (simp_all add: has_image_hint_def)
  then have all: "\<forall>a\<in>set ?atts. \<not> has_image_hint a"
    by simp
  from non_image_attachment_ignored [of _ strict_platform two_images _ enabled_bot ?atts]
  have "(\<forall>a\<in>set ?atts. \<not> has_image_hint a) \<longrightarrow>
      scan_attachments strict_platform two_images ?atts enabled_bot = (Inr PNone, enabled_bot)"
    by blast
  with h all show ?thesis by blast
qed

section \<open>The claims about the durable store\<close>

lemma py_get_not_dict: "\<not> is_dict v \<Longrightarrow> py_get v k dflt = Inl AttributeError"
  by (cases v) simp_all

text \<open>
  Claim C8, as the code has it: \<^verbatim>\<open>save_data\<close> writes the full snapshot in place of what
  the file held; it returns \<^verbatim>\<open>None\<close> whether the write succeeded or not, and raises
  nothing; a failure to write is logged and not passed on to the caller; the ledger in memory
  is the same after the call in every case.
\<close>

theorem save_data_effects:
  "fst (save_data env st) = Inr PNone \<and>
   data (snd (save_data env st)) = data st \<and>
   (disk env = WriteOk \<longrightarrow>
      data_file (snd (save_data env st)) = Parsed (PDict (data st)) \<and>
      events (snd (save_data env st)) = events st @ [FileWritten (data st)]) \<and>
   (disk env \<noteq> WriteOk \<longrightarrow>
      events (snd (save_data env st)) = events st @ [LogError ''Error saving data''])"
  by (cases "disk env") (simp_all add: save_data_def log_event_def)

theorem save_data_effects_witness:
  "disk strict_platform = WriteOk \<and>
   data_file (snd (save_data strict_platform enabled_bot)) = Parsed (PDict enabled_data) \<and>
   disk (strict_platform\<lparr>disk := WriteFails\<rparr>) \<noteq> WriteOk \<and>
   fst (save_data (strict_platform\<lparr>disk := WriteFails\<rparr>) enabled_bot) = Inr PNone \<and>
   data (snd (save_data (strict_platform\<lparr>disk := WriteFails\<rparr>) enabled_bot)) = enabled_data \<and>
   events (snd (save_data (strict_platform\<lparr>disk := WriteFails\<rparr>) enabled_bot)) =
     [LogError ''Error saving data'']"
  using save_data_effects [of strict_platform enabled_bot]
    save_data_effects [of "strict_platform\<lparr>disk := WriteFails\<rparr>" enabled_bot]
  by (simp add: strict_platform_def enabled_bot_def)

theorem save_data_silent_counterexample:
  "fst (save_data (strict_platform\<lparr>disk := WriteFails\<rparr>) enabled_bot) = Inr PNone \<and>
   fst (save_data (strict_platform\<lparr>disk := OpenFails\<rparr>) enabled_bot) = Inr PNone \<and>
   fst (save_data strict_platform enabled_bot) = Inr PNone \<and>
   fst (save_data (strict_platform\<lparr>disk := WriteFails\<rparr>) enabled_bot) =
     fst (save_data strict_platform enabled_bot)"
  by (simp add: save_data_def strict_platform_def)

lemma load_failed_effects:
  "fst (load_failed env st) = Inr PNone \<and>
   data (snd (load_failed env st)) = default_data \<and>
   (\<exists>post. events (snd (load_failed env st)) =
      events st @ LogError ''Error loading data'' # post) \<and>
   (disk env = WriteOk \<longrightarrow>
      data_file (snd (load_failed env st)) = Parsed (PDict default_data))"
  by (cases "disk env") (simp_all add: load_failed_def save_data_def log_event_def)

text \<open>
  Claim C5, as the code has it: \<^verbatim>\<open>load_data\<close> on a fresh store raises nothing and always
  leaves a snapshot with the three top-level sections. Without a backing file the snapshot is
  the empty default and is written at once. When the file cannot be read or parsed, or what
  it parses to is not an object, the failure is logged, the snapshot is the empty default and
  it is written at once. From a parsed object each section is taken as it is found, whatever
  its type, and a missing section is empty.
\<close>

theorem load_data_effects:
  "fst (load_data env (init f)) = Inr PNone \<and>
   has_sections (data (snd (load_data env (init f)))) \<and>
   (f = NoFile \<longrightarrow>
      data (snd (load_data env (init f))) = default_data \<and>
      (disk env = WriteOk \<longrightarrow>
         data_file (snd (load_data env (init f))) = Parsed (PDict default_data))) \<and>
   (f = Unparseable \<or> (\<exists>v. f = Parsed v \<and> \<not> is_dict v) \<longrightarrow>
      data (snd (load_data env (init f))) = default_data \<and>
      (\<exists>post. events (snd (load_data env (init f))) = LogError ''Error loading data'' # post) \<and>
      (disk env = WriteOk \<longrightarrow>
         data_file (snd (load_data env (init f))) = Parsed (PDict default_data))) \<and>
   (\<forall>m. f = Parsed (PDict m) \<longrightarrow>
      load_data env (init f) =
        (Inr PNone,
         \<lparr>data =
            [(''enabled_servers'',
                case map_of m ''enabled_servers'' of None \<Rightarrow> PDict [] | Some v \<Rightarrow> v),
             (''user_warnings'',
                case map_of m ''user_warnings'' of None \<Rightarrow> PDict [] | Some v \<Rightarrow> v),
             (''moderation_log'',
                case map_of m ''moderation_log'' of None \<Rightarrow> PList [] | Some v \<Rightarrow> v)],
          data_file = f,
          events = [LogInfo ''Moderation data loaded successfully'']\<rparr>))"
proof (cases f)
  case NoFile
  then show ?thesis
    by (cases "disk env")
       (simp_all add: load_data_def save_data_def log_event_def init_def has_sections_def
          default_data_def)
next
  case Unparseable
  with load_failed_effects [of env "init f"] show ?thesis
    by (simp add: load_data_def has_sections_def default_data_def init_def)
next
  case (Parsed v)
  show ?thesis
  proof (cases "is_dict v")
    case True
    then obtain m where "v = PDict m" by (cases v) simp_all
    with Parsed show ?thesis
      by (simp add: load_data_def pbind_def log_event_def init_def has_sections_def)
  next
    case False
    then have "load_data env (init f) = load_failed env (init f)"
      using Parsed by (simp add: load_data_def pbind_def py_get_not_dict init_def)
    with load_failed_effects [of env "init f"] False Parsed show ?thesis
      by (auto simp: has_sections_def default_data_def init_def)
  qed
qed

theorem load_data_effects_witness:
  "has_sections (data (snd (load_data strict_platform (init NoFile)))) \<and>
   data (snd (load_data strict_platform (init NoFile))) = default_data \<and>
   disk strict_platform = WriteOk \<and>
   data_file (snd (load_data strict_platform (init NoFile))) = Parsed (PDict default_data) \<and>
   \<not> is_dict (PList []) \<and>
   data (snd (load_data strict_platform (init (Parsed (PList []))))) = default_data \<and>
   data_file (snd (load_data strict_platform (init (Parsed (PList []))))) =
     Parsed (PDict default_data) \<and>
   data (snd (load_data strict_platform (init (Parsed (PDict [(''user_warnings'', PDict [])]))))) =
     default_data"
proof -
  have w: "disk strict_platform = WriteOk" by (simp add: strict_platform_def)
  have d: "\<not> is_dict (PList [])" by simp
  from load_data_effects [of strict_platform NoFile]
    load_data_effects [of strict_platform "Parsed (PList [])"]
    load_data_effects [of strict_platform "Parsed (PDict [(''user_warnings'', PDict [])])"]
    w d
  show ?thesis
    by (simp add: default_data_def has_sections_def)
qed

theorem load_data_unchecked_counterexample:
  "load_data strict_platform (init odd_file) =
     (Inr PNone,
      \<lparr>data = [(''enabled_servers'', PDict []), (''user_warnings'', PInt 3),
               (''moderation_log'', PList [])],
       data_file = odd_file,
       events = [LogInfo ''Moderation data loaded successfully'']\<rparr>) \<and>
   \<not> well_typed (data (snd (load_data strict_platform (init odd_file)))) \<and>
   fst (increment_warning 7 9 (data (snd (load_data strict_platform (init odd_file))))) =
     Inl TypeError"
  by (simp add: load_data_def odd_file_def init_def pbind_def log_event_def well_typed_def
      increment_warning_def ensure_section_def)


end
